theory Spec2Isabelle
  imports Main "HOL-Library.Char_ord" "HOL-Library.List_Lexorder" "HOL-Library.AList"
begin

section \<open>JavaScript strings\<close>

text \<open>
  Strings are \<open>char list\<close>; a character stands for the code unit with the same number
  (U+0000 to U+00FF). On that range the regular-expression class \<open>\s\<close> holds tab, line
  feed, vertical tab, form feed, carriage return, space and the no-break space; \<open>.\<close>
  excludes line feed and carriage return; \<open>toLowerCase\<close> moves \<open>A\<close>-\<open>Z\<close> and the
  Latin-1 capitals U+00C0-U+00DE (the multiplication sign U+00D7 apart) up by 32.
\<close>

definition is_space :: "char \<Rightarrow> bool" where
  "is_space c \<longleftrightarrow> (of_char c :: nat) \<in> set [9, 10, 11, 12, 13, 32, 160]"

definition is_line_terminator :: "char \<Rightarrow> bool" where
  "is_line_terminator c \<longleftrightarrow> (of_char c :: nat) \<in> set [10, 13]"

definition lower_char :: "char \<Rightarrow> char" where
  "lower_char c =
     (let n = (of_char c :: nat)
      in if (65 \<le> n \<and> n \<le> 90) \<or> (192 \<le> n \<and> n \<le> 222 \<and> n \<noteq> 215)
         then char_of (n + 32) else c)"

definition toLowerCase :: "string \<Rightarrow> string" where
  "toLowerCase s = map lower_char s"

text \<open>
  \<open>s.replace(/\s+/, r)\<close>: the regular expression has no \<open>g\<close> flag, so only the leftmost
  match is replaced; the match is the whole run of white space that starts at the first
  white-space character.
\<close>

fun replace_ws :: "string \<Rightarrow> string \<Rightarrow> string" where
  "replace_ws r [] = []"
| "replace_ws r (c # cs) =
     (if is_space c then r @ dropWhile is_space cs else c # replace_ws r cs)"

text \<open>\<open>s.replace(/\(s\)/, 's')\<close>: the leftmost occurrence of the three characters \<open>(s)\<close>.\<close>

fun replace_paren_s :: "string \<Rightarrow> string" where
  "replace_paren_s [] = []"
| "replace_paren_s (c # cs) =
     (if take 3 (c # cs) = ''(s)'' then ''s'' @ drop 2 cs else c # replace_paren_s cs)"

text \<open>
  \<open>s.replace(/\s*\(.*$/, '')\<close>: a match at a position is a run of white space, an
  opening parenthesis, and then the rest of the string, which \<open>.*$\<close> covers only when it
  holds no line terminator. The leftmost position with a match is cut off.
\<close>

definition paren_tail :: "string \<Rightarrow> bool" where
  "paren_tail s =
     (case dropWhile is_space s of
        [] \<Rightarrow> False
      | c # cs \<Rightarrow> c = CHR ''('' \<and> list_all (\<lambda>d. \<not> is_line_terminator d) cs)"

fun strip_paren_tail :: "string \<Rightarrow> string" where
  "strip_paren_tail [] = []"
| "strip_paren_tail (c # cs) =
     (if paren_tail (c # cs) then [] else c # strip_paren_tail cs)"

text \<open>\<open>s.split('.', 2)\<close>: the string is cut at every separator, and at most the first two
  pieces are kept.\<close>

fun split_all :: "char \<Rightarrow> string \<Rightarrow> string list" where
  "split_all sep [] = [[]]"
| "split_all sep (c # cs) =
     (if c = sep then [] # split_all sep cs
      else (case split_all sep cs of
              [] \<Rightarrow> [[c]]
            | p # ps \<Rightarrow> (c # p) # ps))"

definition split_limit :: "char \<Rightarrow> nat \<Rightarrow> string \<Rightarrow> string list" where
  "split_limit sep n s = take n (split_all sep s)"

text \<open>A template literal prints \<open>undefined\<close> for a value that is missing.\<close>

definition template :: "string option \<Rightarrow> string" where
  "template v = (case v of None \<Rightarrow> ''undefined'' | Some s \<Rightarrow> s)"

section \<open>JavaScript objects\<close>

text \<open>
  An object is the list of its own properties in insertion order, with pairwise
  different keys. Assignment \<open>obj[k] = v\<close> is \<open>AList.update k v obj\<close>: an existing
  key keeps its place, a new key goes to the end. Enumeration (\<open>for ... in\<close>,
  \<open>Object.keys\<close>, object spread) visits the keys that are array indices first, in
  ascending numeric order, and then the other keys in insertion order.
\<close>

datatype jsval = JNull | JStr string | JObj "(string \<times> jsval) list"

definition is_digit :: "char \<Rightarrow> bool" where
  "is_digit c \<longleftrightarrow> 48 \<le> (of_char c :: nat) \<and> (of_char c :: nat) \<le> 57"

definition digits_val :: "string \<Rightarrow> int" where
  "digits_val s = foldl (\<lambda>n c. 10 * n + (of_char c - 48)) 0 s"

definition is_array_index :: "string \<Rightarrow> bool" where
  "is_array_index k \<longleftrightarrow>
     list_all is_digit k \<and> digits_val k < 4294967295 \<and>
     (case k of [] \<Rightarrow> False | c # cs \<Rightarrow> cs = [] \<or> of_char c > (48 :: nat))"

definition own_entries :: "(string \<times> 'v) list \<Rightarrow> (string \<times> 'v) list" where
  "own_entries obj =
     sort_key (\<lambda>e. digits_val (fst e)) (filter (\<lambda>e. is_array_index (fst e)) obj)
     @ filter (\<lambda>e. \<not> is_array_index (fst e)) obj"

definition own_keys :: "(string \<times> 'v) list \<Rightarrow> string list" where
  "own_keys obj = map fst (own_entries obj)"

text \<open>\<open>!v\<close> for a value that is a string or missing.\<close>

definition falsy :: "string option \<Rightarrow> bool" where
  "falsy v \<longleftrightarrow> (case v of None \<Rightarrow> True | Some s \<Rightarrow> s = [])"

text \<open>
  \<open>obj[k] = v\<close> for a string \<open>v\<close> on an object created by \<open>{}\<close>: the key
  \<open>__proto__\<close> names the prototype accessor, which ignores a value that is not an object,
  so no property is created.
\<close>

definition assign_string :: "string \<Rightarrow> string \<Rightarrow> (string \<times> string) list \<Rightarrow> (string \<times> string) list" where
  "assign_string k v obj = (if k = ''__proto__'' then obj else AList.update k v obj)"

section \<open>Canonical serializer\<close>

text \<open>
  Modelled from the spec: \<open>sortKeys\<close> is the npm package \<open>sort-keys\<close>, called with
  \<open>deep: true\<close>; its code is not part of the repository's sources. The spec (4.1): it
  recursively sorts mapping keys, at the top level and in any nested mapping,
  lexicographically.
\<close>

fun sortKeys :: "jsval \<Rightarrow> jsval" where
  "sortKeys (JObj fs) = JObj (sort_key fst (map (\<lambda>(k, v). (k, sortKeys v)) fs))"
| "sortKeys v = v"

text \<open>Modelled from the spec: what \<open>sortKeys\<close> (not under the sources, see above) does
  to the fields of one mapping.\<close>

definition sort_fields :: "(string \<times> jsval) list \<Rightarrow> (string \<times> jsval) list" where
  "sort_fields fs = sort_key fst (map (\<lambda>(k, v). (k, sortKeys v)) fs)"

text \<open>
  Modelled from the spec: \<open>TOML.stringify\<close> is the npm package \<open>@iarna/toml\<close>; its code
  is not part of the repository's sources. The spec (4.1, 6): structured text, one
  \<open>key = value\<close> line for each field in the order of the mapping, nested mappings as
  tables named by their key path; a field whose value is the absence marker is dropped
  from the output, at every nesting level. The definitions from here to \<open>stringify\<close>
  are that emitter.
\<close>

text \<open>Modelled from the spec: the characters of a key that \<open>TOML.stringify\<close> (not under
  the sources) writes without quotes.\<close>

definition bare_key_char :: "char \<Rightarrow> bool" where
  "bare_key_char c \<longleftrightarrow>
     (let n = (of_char c :: nat)
      in (48 \<le> n \<and> n \<le> 57) \<or> (65 \<le> n \<and> n \<le> 90) \<or> (97 \<le> n \<and> n \<le> 122)
         \<or> n = 95 \<or> n = 45)"

text \<open>Modelled from the spec: a character inside a quoted string of the output of
  \<open>TOML.stringify\<close> (not under the sources).\<close>

definition escape_char :: "char \<Rightarrow> string" where
  "escape_char c =
     (if c = CHR 0x22 then [CHR 0x5C, CHR 0x22]
      else if c = CHR 0x5C then [CHR 0x5C, CHR 0x5C]
      else if c = CHR 0x0A then [CHR 0x5C, CHR ''n'']
      else if c = CHR 0x0D then [CHR 0x5C, CHR ''r'']
      else if c = CHR 0x09 then [CHR 0x5C, CHR ''t'']
      else [c])"

text \<open>Modelled from the spec: a string value in the output of \<open>TOML.stringify\<close> (not
  under the sources).\<close>

definition basic_string :: "string \<Rightarrow> string" where
  "basic_string s = [CHR 0x22] @ concat (map escape_char s) @ [CHR 0x22]"

text \<open>Modelled from the spec: a key in the output of \<open>TOML.stringify\<close> (not under the
  sources).\<close>

definition stringifyKey :: "string \<Rightarrow> string" where
  "stringifyKey k = (if k \<noteq> [] \<and> list_all bare_key_char k then k else basic_string k)"

text \<open>Modelled from the spec: the line of \<open>TOML.stringify\<close> (not under the sources) for
  one field; nothing for the absence marker, and nothing here for a nested mapping.\<close>

fun stringifyInline :: "string \<Rightarrow> jsval \<Rightarrow> string" where
  "stringifyInline k (JStr s) = stringifyKey k @ '' = '' @ basic_string s @ [CHR 0x0A]"
| "stringifyInline k v = []"

text \<open>Modelled from the spec: the table of \<open>TOML.stringify\<close> (not under the sources)
  for a field that holds a nested mapping; nothing for any other field.\<close>

fun stringifyTable :: "string \<Rightarrow> jsval \<Rightarrow> string" where
  "stringifyTable name (JObj fs) =
     ''['' @ name @ '']'' @ [CHR 0x0A]
     @ concat (map (\<lambda>(k, v). stringifyInline k v) fs)
     @ concat (map (\<lambda>(k, v). stringifyTable (name @ ''.'' @ stringifyKey k) v) fs)"
| "stringifyTable name v = []"

text \<open>Modelled from the spec: \<open>TOML.stringify\<close> (not under the sources) on the fields
  of a document: the lines of the fields, then the tables of the nested mappings.\<close>

definition stringify :: "(string \<times> jsval) list \<Rightarrow> string" where
  "stringify fs =
     concat (map (\<lambda>(k, v). stringifyInline k v) fs)
     @ concat (map (\<lambda>(k, v). stringifyTable (stringifyKey k) v) fs)"

text \<open>\<open>TOML.stringify(sortKeys(doc, { deep: true }))\<close>, lines 143, 173 and 224.\<close>

definition serialize :: "(string \<times> jsval) list \<Rightarrow> string" where
  "serialize doc = (case sortKeys (JObj doc) of JObj fs \<Rightarrow> stringify fs | _ \<Rightarrow> [])"

text \<open>A document is well formed when its keys are pairwise different at every level.\<close>

fun wf_val :: "jsval \<Rightarrow> bool" where
  "wf_val (JObj fs) \<longleftrightarrow> distinct (map fst fs) \<and> list_all (\<lambda>(k, v). wf_val v) fs"
| "wf_val v \<longleftrightarrow> True"

text \<open>Two documents have the same field-to-value set: the same keys, and under each key
  values that again have the same field-to-value set.\<close>

fun same_fields :: "jsval \<Rightarrow> jsval \<Rightarrow> bool" where
  "same_fields (JObj fs) (JObj gs) \<longleftrightarrow>
     set (map fst fs) = set (map fst gs) \<and>
     list_all (\<lambda>(k, v). case map_of gs k of None \<Rightarrow> False | Some w \<Rightarrow> same_fields v w) fs"
| "same_fields JNull JNull \<longleftrightarrow> True"
| "same_fields (JStr s) (JStr t) \<longleftrightarrow> s = t"
| "same_fields _ _ \<longleftrightarrow> False"

text \<open>The document with every field that holds the absence marker removed, at every level.\<close>

fun strip_nulls :: "(string \<times> jsval) list \<Rightarrow> (string \<times> jsval) list" where
  "strip_nulls [] = []"
| "strip_nulls ((k, JNull) # fs) = strip_nulls fs"
| "strip_nulls ((k, JStr s) # fs) = (k, JStr s) # strip_nulls fs"
| "strip_nulls ((k, JObj sub) # fs) = (k, JObj (strip_nulls sub)) # strip_nulls fs"

text \<open>No field holds the absence marker, at any level.\<close>

fun null_free :: "jsval \<Rightarrow> bool" where
  "null_free JNull \<longleftrightarrow> False"
| "null_free (JStr s) \<longleftrightarrow> True"
| "null_free (JObj fs) \<longleftrightarrow> list_all (\<lambda>(k, v). null_free v) fs"

section \<open>Effects of a run\<close>

text \<open>
  A run is described by the calls it makes on its collaborators, in order, and by how it
  ends. \<open>Get\<close> is \<open>axios.get\<close>, \<open>Warn\<close> is \<open>console.warn\<close>, \<open>WriteChild\<close> is
  \<open>tree.writeChild\<close> and \<open>WriteTree\<close> is \<open>tree.write\<close>, which finalizes the tree. The
  progress bar is left out. The HTTP collaborator is a parameter: a function from the
  requested location to a failure or a payload.
\<close>

datatype effect = Get string | Warn string | WriteChild string string | WriteTree

datatype error = FetchFailure | DecodeFailure

type_synonym run = "effect list \<times> (error + unit)"

section \<open>The CSV header and category rules\<close>

text \<open>Lines 203-206 of \<open>import.js\<close>.\<close>

definition fieldName :: "string \<Rightarrow> string" where
  "fieldName columnName = toLowerCase (replace_ws ''_'' (strip_paren_tail columnName))"

text \<open>Lines 219-222 of \<open>import.js\<close>.\<close>

definition category_segment :: "string \<Rightarrow> string" where
  "category_segment category = toLowerCase (replace_paren_s (replace_ws ''-'' category))"

section \<open>Handle-Prefixed adapter: \<open>importLaddr\<close>\<close>

record tag_record =
  Handle :: string
  Title :: jsval

text \<open>The state of the loading loop, lines 101-129: the two-level map, the counter, and
  the warnings printed so far.\<close>

record load_state =
  tagsByPrefix :: "(string \<times> (string \<times> (string \<times> jsval) list) list) list"
  tagsCount :: nat
  warned :: "string list"

definition init_state :: load_state where
  "init_state = \<lparr>tagsByPrefix = [], tagsCount = 0, warned = []\<rparr>"

text \<open>\<open>const [prefix, tag] = Handle.split('.', 2)\<close>: a piece that is not there is
  \<open>undefined\<close>.\<close>

fun destructure :: "string list \<Rightarrow> string option \<times> string option" where
  "destructure [] = (None, None)"
| "destructure [p] = (Some p, None)"
| "destructure (p # t # ps) = (Some p, Some t)"

definition prefix_tag :: "string \<Rightarrow> string option \<times> string option" where
  "prefix_tag h = destructure (split_limit CHR ''.'' 2 h)"

text \<open>The object literal of lines 124-127.\<close>

definition tag_entry :: "tag_record \<Rightarrow> (string \<times> jsval) list" where
  "tag_entry r = [(''handle'', JStr (Handle r)), (''title'', Title r)]"

text \<open>
  The body of the loop of lines 106-129. The model covers tags other than
  \<open>__proto__\<close>, for which the assignment of line 124 would replace the prototype of the
  inner object.
\<close>

definition load_tag :: "load_state \<Rightarrow> tag_record \<Rightarrow> load_state" where
  "load_tag st r =
     (case prefix_tag (Handle r) of (prefix, tag) \<Rightarrow>
        if falsy tag then
          st\<lparr>warned := warned st @ [''skipping unprefixed tag: '' @ Handle r]\<rparr>
        else if prefix = Some ''event'' then st
        else if prefix \<noteq> Some ''tech'' \<and> prefix \<noteq> Some ''topic'' then
          st\<lparr>warned := warned st @ [''skipping unhandled tag prefix: '' @ template prefix]\<rparr>
        else
          (let tags = (case map_of (tagsByPrefix st) (template prefix) of
                         None \<Rightarrow> [] | Some ts \<Rightarrow> ts)
           in st\<lparr>tagsByPrefix :=
                    AList.update (template prefix)
                      (AList.update (template tag) (tag_entry r) tags) (tagsByPrefix st),
                  tagsCount := Suc (tagsCount st)\<rparr>))"

text \<open>The pair under which \<open>load_tag\<close> stores a record: the conditions of lines 109-118
  all fail.\<close>

definition accepted :: "tag_record \<Rightarrow> (string \<times> string) option" where
  "accepted r =
     (case prefix_tag (Handle r) of (prefix, tag) \<Rightarrow>
        if \<not> falsy tag \<and> (prefix = Some ''tech'' \<or> prefix = Some ''topic'')
        then Some (template prefix, template tag) else None)"

text \<open>Lines 135-148: one \<open>writeChild\<close> for each tag of each prefix.\<close>

definition laddr_doc :: "(string \<times> jsval) list \<Rightarrow> (string \<times> jsval) list" where
  "laddr_doc tagData = AList.update ''handle'' JNull (own_entries tagData)"

definition laddr_path :: "string \<Rightarrow> string \<Rightarrow> string" where
  "laddr_path prefix tag = prefix @ ''/'' @ tag @ ''.toml''"

definition laddr_writes ::
  "(string \<times> (string \<times> (string \<times> jsval) list) list) list \<Rightarrow> (string \<times> string) list" where
  "laddr_writes tbp =
     concat (map (\<lambda>(prefix, tags).
                    map (\<lambda>(tag, tagData). (laddr_path prefix tag, serialize (laddr_doc tagData)))
                        (own_entries tags))
                 (own_entries tbp))"

text \<open>The entry stored for a prefix and a tag in the two-level map.\<close>

definition stored ::
  "(string \<times> (string \<times> (string \<times> jsval) list) list) list \<Rightarrow> string \<Rightarrow> string
   \<Rightarrow> (string \<times> jsval) list option" where
  "stored tbp p t = (case map_of tbp p of None \<Rightarrow> None | Some ts \<Rightarrow> map_of ts t)"

text \<open>What the loading loop keeps true of the two-level map: the prefixes are pairwise
  different and are \<open>tech\<close> or \<open>topic\<close>, and the tags under each prefix are pairwise
  different.\<close>

definition well_keyed :: "(string \<times> (string \<times> (string \<times> jsval) list) list) list \<Rightarrow> bool" where
  "well_keyed tbp \<longleftrightarrow>
     distinct (map fst tbp) \<and>
     list_all (\<lambda>(p, ts). (p = ''tech'' \<or> p = ''topic'') \<and> distinct (map fst ts)) tbp"

definition laddr_url :: "string option \<Rightarrow> string" where
  "laddr_url source = ''http://'' @ template source @ ''/tags''"

definition importLaddr :: "(string \<Rightarrow> error + tag_record list) \<Rightarrow> string option \<Rightarrow> run" where
  "importLaddr get source =
     (case get (laddr_url source) of
        Inl e \<Rightarrow> ([Get (laddr_url source)], Inl e)
      | Inr data \<Rightarrow>
          (let st = foldl load_tag init_state data
           in (Get (laddr_url source) # map Warn (warned st)
                 @ map (\<lambda>(path, toml). WriteChild path toml) (laddr_writes (tagsByPrefix st))
                 @ [WriteTree],
               Inr ())))"

section \<open>Flat-Keyed adapter: \<open>importMatchmaker\<close>\<close>

text \<open>\<open>{ source=null }\<close> and \<open>if (!source) source = ...\<close>, lines 154-159 and 183-188.\<close>

definition or_default :: "string option \<Rightarrow> string \<Rightarrow> string" where
  "or_default source d = (if falsy source then d else template source)"

definition matchmaker_default :: string where
  "matchmaker_default =
     ''https://github.com/designforsf/brigade-matchmaker/files/2563599/all_json.txt''"

definition matchmaker_url :: "string option \<Rightarrow> string" where
  "matchmaker_url source = or_default source matchmaker_default"

definition matchmaker_doc :: "(string \<times> jsval) list \<Rightarrow> (string \<times> jsval) list" where
  "matchmaker_doc tagData = AList.update ''class_name'' JNull (own_entries tagData)"

definition matchmaker_writes ::
  "(string \<times> (string \<times> jsval) list) list \<Rightarrow> (string \<times> string) list" where
  "matchmaker_writes data =
     map (\<lambda>(tag, tagData). (tag @ ''.toml'', serialize (matchmaker_doc tagData)))
         (own_entries data)"

definition importMatchmaker ::
  "(string \<Rightarrow> error + (string \<times> (string \<times> jsval) list) list) \<Rightarrow> string option \<Rightarrow> run" where
  "importMatchmaker get source =
     (case get (matchmaker_url source) of
        Inl e \<Rightarrow> ([Get (matchmaker_url source)], Inl e)
      | Inr data \<Rightarrow>
          (Get (matchmaker_url source)
             # map (\<lambda>(path, toml). WriteChild path toml) (matchmaker_writes data)
             @ [WriteTree],
           Inr ()))"

section \<open>CSV-Categorized adapter: \<open>importDemocracyLab\<close>\<close>

text \<open>
  \<open>axios.get\<close> resolves with a response whose body is a stream, and line 198 pipes that
  stream into the CSV decoder. The decoder delivers the rows one by one, each a map from
  column header to string, and then one of three things happens: the decoder reports the
  end of the stream (\<open>End\<close>); the decoder reports an error of its own (\<open>Failed\<close>); or
  the response stream itself fails during the download (\<open>Aborted\<close>). \<open>pipe\<close> does not
  pass an error of its source on to its destination, so in the last case the decoder
  reports neither an end nor an error.
\<close>

datatype stream_end = End | Failed error | Aborted

type_synonym csv_stream = "(string \<times> string) list list \<times> stream_end"

definition democracylab_default :: string where
  "democracylab_default =
     ''https://raw.githubusercontent.com/DemocracyLab/CivicTechExchange/master/common/models/Tag_definitions.csv''"

definition democracylab_url :: "string option \<Rightarrow> string" where
  "democracylab_url source = or_default source democracylab_default"

text \<open>The \<open>data\<close> handler, lines 199-212.\<close>

definition on_data :: "(string \<times> string) list \<Rightarrow> (string \<times> string) list" where
  "on_data row =
     foldl (\<lambda>tagData (columnName, v). assign_string (fieldName columnName) v tagData)
           [] (own_entries row)"

text \<open>\<open>tagData.parent || null\<close>.\<close>

definition or_null :: "string option \<Rightarrow> jsval" where
  "or_null v = (if falsy v then JNull else JStr (template v))"

text \<open>The object literal of lines 224-231.\<close>

definition democracylab_doc :: "(string \<times> string) list \<Rightarrow> (string \<times> jsval) list" where
  "democracylab_doc tagData =
     AList.update ''caption'' (or_null (map_of tagData ''caption''))
       (AList.update ''subcategory'' (or_null (map_of tagData ''subcategory''))
         (AList.update ''parent'' (or_null (map_of tagData ''parent''))
           (AList.update ''canonical_name'' JNull
             (AList.update ''category'' JNull
               (map (\<lambda>(k, v). (k, JStr v)) (own_entries tagData))))))"

definition democracylab_path :: "(string \<times> string) list \<Rightarrow> string \<Rightarrow> string" where
  "democracylab_path tagData category =
     category_segment category @ ''/'' @ template (map_of tagData ''canonical_name'') @ ''.toml''"

text \<open>
  \<open>importDemocracyLab\<close> returns a promise that it builds itself (line 193), and that
  promise settles only when \<open>resolve\<close> or \<open>reject\<close> is called. Its run ends with
  \<open>Some\<close> of how the promise settled, or with \<open>None\<close> when the promise never settles.
\<close>

type_synonym promise_run = "effect list \<times> (error + unit) option"

text \<open>
  The \<open>end\<close> handler, lines 213-241. A row without a category field makes
  \<open>tagData.category.replace\<close> throw inside the handler, which is an \<open>async\<close> function of
  its own: the handler stops there, \<open>tree.write\<close> is not reached, and neither
  \<open>resolve\<close> nor \<open>reject\<close> is called.
\<close>

fun on_end :: "(string \<times> string) list list \<Rightarrow> promise_run" where
  "on_end [] = ([WriteTree], Some (Inr ()))"
| "on_end (tagData # tags) =
     (case map_of tagData ''category'' of
        None \<Rightarrow> ([], None)
      | Some category \<Rightarrow>
          (case on_end tags of (effects, result) \<Rightarrow>
             (WriteChild (democracylab_path tagData category) (serialize (democracylab_doc tagData))
                # effects, result)))"

text \<open>
  Lines 183-244. A rejected \<open>axios.get\<close> rejects the promise of the run. The only error
  listener, \<open>on('error', reject)\<close> of line 242, is on the decoder that \<open>pipe\<close> returns:
  an error of the decoder rejects the promise, and a failure of the response stream
  reaches no listener of the run, so the promise stays pending.
\<close>

definition importDemocracyLab ::
  "(string \<Rightarrow> error + csv_stream) \<Rightarrow> string option \<Rightarrow> promise_run" where
  "importDemocracyLab get source =
     (let url = democracylab_url source;
          before = [Warn (''downloading '' @ url), Get url]
      in case get url of
           Inl e \<Rightarrow> (before, Some (Inl e))
         | Inr (rows, Failed e) \<Rightarrow> (before, Some (Inl e))
         | Inr (rows, Aborted) \<Rightarrow> (before, None)
         | Inr (rows, End) \<Rightarrow>
             (case on_end (map on_data rows) of (effects, result) \<Rightarrow> (before @ effects, result)))"

section \<open>Reading a run\<close>

text \<open>What a run wrote, what it warned of and whether it finalized the tree, read off its
  effects, whatever the way it ends.\<close>

definition written :: "effect list \<times> 'a \<Rightarrow> (string \<times> string) list" where
  "written r = concat (map (\<lambda>e. case e of WriteChild p b \<Rightarrow> [(p, b)] | _ \<Rightarrow> []) (fst r))"

definition warnings :: "effect list \<times> 'a \<Rightarrow> string list" where
  "warnings r = concat (map (\<lambda>e. case e of Warn w \<Rightarrow> [w] | _ \<Rightarrow> []) (fst r))"

definition finalized :: "effect list \<times> 'a \<Rightarrow> bool" where
  "finalized r \<longleftrightarrow> WriteTree \<in> set (fst r)"

section \<open>Examples\<close>

text \<open>Collaborators that answer every request the same way.\<close>

definition get_fails :: "string \<Rightarrow> error + 'a" where
  "get_fails url = Inl FetchFailure"

definition serve :: "'a \<Rightarrow> string \<Rightarrow> error + 'a" where
  "serve payload url = Inr payload"

definition rec_cloud :: tag_record where
  "rec_cloud = \<lparr>Handle = ''tech.cloud'', Title = JStr ''Cloud''\<rparr>"

definition rec_event :: tag_record where
  "rec_event = \<lparr>Handle = ''event.launch'', Title = JStr ''Launch''\<rparr>"

definition rec_orphan :: tag_record where
  "rec_orphan = \<lparr>Handle = ''orphan'', Title = JStr ''Orphan''\<rparr>"

definition rec_misc :: tag_record where
  "rec_misc = \<lparr>Handle = ''misc.widget'', Title = JStr ''Widget''\<rparr>"

definition rec_cloud2 :: tag_record where
  "rec_cloud2 = \<lparr>Handle = ''tech.cloud'', Title = JStr ''Cloud computing''\<rparr>"

definition get_tags :: "string \<Rightarrow> error + tag_record list" where
  "get_tags url = Inr [rec_cloud, rec_event, rec_orphan, rec_misc, rec_cloud2]"

text \<open>Two documents with the same fields in different orders, and a CSV row.\<close>

definition doc_a :: "(string \<times> jsval) list" where
  "doc_a = [(''title'', JStr ''Cloud''), (''handle'', JNull),
            (''links'', JObj [(''web'', JStr ''w''), (''code'', JStr ''c'')])]"

definition doc_b :: "(string \<times> jsval) list" where
  "doc_b = [(''links'', JObj [(''code'', JStr ''c''), (''web'', JStr ''w'')]),
            (''handle'', JNull), (''title'', JStr ''Cloud'')]"

definition payload_water :: "(string \<times> (string \<times> jsval) list) list" where
  "payload_water =
     [(''clean-water'', [(''class_name'', JStr ''CleanWater''), (''description'', JStr ''...'')])]"

definition row_murals :: "(string \<times> string) list" where
  "row_murals = [(''Canonical Name'', ''murals''), (''Category'', ''Arts''),
                 (''Parent'', []), (''Caption'', ''Painted walls'')]"

section \<open>Properties\<close>

subsection \<open>Enumeration of an object\<close>

lemma set_own_entries: "set (own_entries obj) = set obj"
  by (auto simp: own_entries_def)

lemma distinct_own_entries:
  assumes "distinct (map fst obj)"
  shows "distinct (map fst (own_entries obj))"
proof -
  from assms have d: "distinct obj" and i: "inj_on fst (set obj)"
    by (simp_all add: distinct_map)
  have "distinct (own_entries obj)"
    using d by (auto simp: own_entries_def)
  moreover have "inj_on fst (set (own_entries obj))"
    using i by (simp add: set_own_entries)
  ultimately show ?thesis by (simp add: distinct_map)
qed

lemma map_of_own_entries:
  assumes "distinct (map fst obj)"
  shows "map_of (own_entries obj) = map_of obj"
  using assms distinct_own_entries [OF assms] set_own_entries [of obj]
  by (simp add: map_of_inject_set)

subsection \<open>Canonical serializer\<close>

lemma serialize_sort_fields: "serialize doc = stringify (sort_fields doc)"
  by (simp add: serialize_def sort_fields_def)

lemma sort_fields_Nil: "sort_fields [] = []"
  by (simp add: sort_fields_def)

lemma sort_fields_Cons:
  "sort_fields ((k, v) # fs) = insort_key fst (k, sortKeys v) (sort_fields fs)"
  by (simp add: sort_fields_def)

lemma sorted_sort_fields: "sorted (map fst (sort_fields fs))"
  by (simp add: sort_fields_def)

lemma fst_set_strip_nulls: "fst ` set (strip_nulls fs) \<subseteq> fst ` set fs"
  by (induction fs rule: strip_nulls.induct) auto

text \<open>Inserting a field into a sorted mapping and then dropping the absent fields is
  dropping them first and then inserting the field, unless it is absent itself.\<close>

lemma strip_nulls_insort:
  "sorted (map fst fs) \<Longrightarrow>
   strip_nulls (insort_key fst (k, v) fs) =
     (case v of JNull \<Rightarrow> strip_nulls fs
      | JStr s \<Rightarrow> insort_key fst (k, JStr s) (strip_nulls fs)
      | JObj sub \<Rightarrow> insort_key fst (k, JObj (strip_nulls sub)) (strip_nulls fs))"
proof (induction fs rule: strip_nulls.induct)
  case 1
  show ?case by (cases v) simp_all
next
  case (2 k' fs)
  then have ih: "strip_nulls (insort_key fst (k, v) fs) =
     (case v of JNull \<Rightarrow> strip_nulls fs
      | JStr s \<Rightarrow> insort_key fst (k, JStr s) (strip_nulls fs)
      | JObj sub \<Rightarrow> insort_key fst (k, JObj (strip_nulls sub)) (strip_nulls fs))"
    by simp
  from 2 have "\<forall>x \<in> fst ` set fs. k' \<le> x" by auto
  with fst_set_strip_nulls [of fs] have le: "\<forall>x \<in> set (strip_nulls fs). k' \<le> fst x"
    by blast
  show ?case
  proof (cases "k \<le> k'")
    case True
    with le have "\<forall>x \<in> set (strip_nulls fs). k \<le> fst x" by auto
    then have "\<And>w. insort_key fst (k, w) (strip_nulls fs) = (k, w) # strip_nulls fs"
      by (simp add: insort_is_Cons)
    with True show ?thesis by (cases v) simp_all
  next
    case False
    with ih show ?thesis by (cases v) simp_all
  qed
next
  case (3 k' s fs)
  then have ih: "strip_nulls (insort_key fst (k, v) fs) =
     (case v of JNull \<Rightarrow> strip_nulls fs
      | JStr s \<Rightarrow> insort_key fst (k, JStr s) (strip_nulls fs)
      | JObj sub \<Rightarrow> insort_key fst (k, JObj (strip_nulls sub)) (strip_nulls fs))"
    by simp
  show ?case using ih by (cases v) simp_all
next
  case (4 k' sub' fs)
  then have ih: "strip_nulls (insort_key fst (k, v) fs) =
     (case v of JNull \<Rightarrow> strip_nulls fs
      | JStr s \<Rightarrow> insort_key fst (k, JStr s) (strip_nulls fs)
      | JObj sub \<Rightarrow> insort_key fst (k, JObj (strip_nulls sub)) (strip_nulls fs))"
    by simp
  show ?case using ih by (cases v) simp_all
qed

lemma sort_fields_strip_nulls: "sort_fields (strip_nulls fs) = strip_nulls (sort_fields fs)"
proof (induction fs rule: strip_nulls.induct)
  case 1
  show ?case by (simp add: sort_fields_Nil)
next
  case (2 k fs)
  then show ?case
    by (simp add: sort_fields_Cons strip_nulls_insort sorted_sort_fields)
next
  case (3 k s fs)
  then show ?case
    by (simp add: sort_fields_Cons strip_nulls_insort sorted_sort_fields)
next
  case (4 k sub fs)
  have "sortKeys (JObj sub) = JObj (sort_fields sub)"
    by (simp add: sort_fields_def)
  moreover have "sortKeys (JObj (strip_nulls sub)) = JObj (sort_fields (strip_nulls sub))"
    by (simp add: sort_fields_def)
  ultimately show ?case using 4
    by (simp add: sort_fields_Cons strip_nulls_insort sorted_sort_fields del: sortKeys.simps)
qed

lemma inline_strip_nulls:
  "concat (map (\<lambda>(k, v). stringifyInline k v) (strip_nulls fs)) =
   concat (map (\<lambda>(k, v). stringifyInline k v) fs)"
  by (induction fs rule: strip_nulls.induct) simp_all

lemma tables_strip_nulls:
  "concat (map (\<lambda>(k, v). stringifyTable (f k) v) (strip_nulls fs)) =
   concat (map (\<lambda>(k, v). stringifyTable (f k) v) fs)"
proof (induction fs arbitrary: f rule: strip_nulls.induct)
  case (4 k sub fs)
  have "stringifyTable (f k) (JObj (strip_nulls sub)) = stringifyTable (f k) (JObj sub)"
    using "4.IH"(1) [of "\<lambda>k'. f k @ ''.'' @ stringifyKey k'"]
    by (simp add: inline_strip_nulls)
  with "4.IH"(2) [of f] show ?case by simp
qed simp_all

lemma stringify_strip_nulls: "stringify (strip_nulls fs) = stringify fs"
  by (simp add: stringify_def inline_strip_nulls tables_strip_nulls)

lemma serialize_strip_nulls: "serialize (strip_nulls doc) = serialize doc"
  by (simp add: serialize_sort_fields sort_fields_strip_nulls stringify_strip_nulls)

lemma null_free_strip_nulls: "list_all (\<lambda>(k, v). null_free v) (strip_nulls fs)"
  by (induction fs rule: strip_nulls.induct) simp_all

lemma map_of_strip_nulls:
  "distinct (map fst fs) \<Longrightarrow> map_of fs k = Some JNull \<Longrightarrow> map_of (strip_nulls fs) k = None"
proof (induction fs rule: strip_nulls.induct)
  case (2 k' fs)
  then show ?case
    using fst_set_strip_nulls [of fs]
    by (auto simp: map_of_eq_None_iff split: if_splits)
qed (auto split: if_splits)

text \<open>Lists with the same entries and pairwise different keys sort to the same list.\<close>

lemma sort_key_fst_unique:
  assumes "distinct (map fst F)" and "set F = set G" and "distinct (map fst G)"
  shows "sort_key fst F = sort_key fst (G :: ('a::linorder \<times> 'b) list)"
proof (rule map_sorted_distinct_set_unique [where f = fst])
  from assms(1) have "inj_on fst (set F)" by (simp add: distinct_map)
  with assms(2) show "inj_on fst (set (sort_key fst F) \<union> set (sort_key fst G))" by simp
  from assms(1) show "distinct (map fst (sort_key fst F))"
    by (simp add: distinct_map)
  from assms(3) show "distinct (map fst (sort_key fst G))"
    by (simp add: distinct_map)
  from assms(2) show "set (sort_key fst F) = set (sort_key fst G)" by simp
qed simp_all

lemma same_fields_sortKeys:
  "same_fields a b \<Longrightarrow> wf_val a \<Longrightarrow> wf_val b \<Longrightarrow> sortKeys a = sortKeys b"
proof (induction a b rule: same_fields.induct)
  case (1 fs gs)
  let ?sk = "\<lambda>(k, v). (k, sortKeys v)"
  from "1.prems"(1) have keys: "fst ` set fs = fst ` set gs" by simp
  from "1.prems"(1)
  have "list_all (\<lambda>(k, v). case map_of gs k of None \<Rightarrow> False | Some w \<Rightarrow> same_fields v w) fs"
    by simp
  then have rel: "\<exists>w. map_of gs k = Some w \<and> same_fields v w" if "(k, v) \<in> set fs" for k v
    using that by (fastforce simp: list_all_iff split: option.splits)
  from "1.prems"(2) have dfs: "distinct (map fst fs)"
    and wfs: "\<And>k v. (k, v) \<in> set fs \<Longrightarrow> wf_val v"
    by (auto simp: list_all_iff)
  from "1.prems"(3) have dgs: "distinct (map fst gs)"
    and wgs: "\<And>k w. (k, w) \<in> set gs \<Longrightarrow> wf_val w"
    by (auto simp: list_all_iff)
  have step: "sortKeys v = sortKeys w" if "(k, v) \<in> set fs" "map_of gs k = Some w" for k v w
  proof -
    from rel [OF that(1)] that(2) have "same_fields v w" by simp
    moreover have "wf_val v" using wfs that(1) by blast
    moreover have "wf_val w" using wgs map_of_SomeD [OF that(2)] by blast
    ultimately show ?thesis using "1.IH" [OF that(1) refl that(2)] by simp
  qed
  have sets: "set (map ?sk fs) = set (map ?sk gs)"
  proof (intro set_eqI iffI)
    fix x assume "x \<in> set (map ?sk fs)"
    then obtain k v where kv: "(k, v) \<in> set fs" and x: "x = (k, sortKeys v)" by auto
    from rel [OF kv] obtain w where w: "map_of gs k = Some w" by blast
    from step [OF kv w] x have "x = ?sk (k, w)" by simp
    moreover have "(k, w) \<in> set gs" using map_of_SomeD [OF w] .
    ultimately show "x \<in> set (map ?sk gs)" by force
  next
    fix x assume "x \<in> set (map ?sk gs)"
    then obtain k w where kw: "(k, w) \<in> set gs" and x: "x = (k, sortKeys w)" by auto
    from kw have "k \<in> fst ` set gs" by force
    with keys have "k \<in> fst ` set fs" by simp
    then obtain v where kv: "(k, v) \<in> set fs" by force
    from kw dgs have w: "map_of gs k = Some w" by simp
    from step [OF kv w] x have "x = ?sk (k, v)" by simp
    with kv show "x \<in> set (map ?sk fs)" by force
  qed
  have mf: "map fst (map ?sk fs) = map fst fs" "map fst (map ?sk gs) = map fst gs"
    by (simp_all add: case_prod_unfold comp_def)
  have "sort_key fst (map ?sk fs) = sort_key fst (map ?sk gs)"
    by (rule sort_key_fst_unique) (simp_all only: mf dfs dgs sets)
  then show ?case by simp
qed simp_all

text \<open>
  C1: two well-formed documents with the same field-to-value set, whatever the order of
  their keys at any nesting level, serialize to the same bytes.
\<close>

theorem serialize_order_independent:
  assumes "wf_val (JObj d1)" and "wf_val (JObj d2)" and "same_fields (JObj d1) (JObj d2)"
  shows "serialize d1 = serialize d2"
  using same_fields_sortKeys [OF assms(3) assms(1) assms(2)] by (simp add: serialize_def)

theorem serialize_order_independent_witness:
  "wf_val (JObj doc_a) \<and> wf_val (JObj doc_b) \<and> same_fields (JObj doc_a) (JObj doc_b)
   \<and> doc_a \<noteq> doc_b \<and> serialize doc_a = serialize doc_b"
proof -
  have a: "wf_val (JObj doc_a)" by (simp add: doc_a_def)
  have b: "wf_val (JObj doc_b)" by (simp add: doc_b_def)
  have s: "same_fields (JObj doc_a) (JObj doc_b)" by code_simp
  have n: "doc_a \<noteq> doc_b" by (simp add: doc_a_def doc_b_def)
  from a b s n serialize_order_independent [OF a b s] show ?thesis by simp
qed

subsection \<open>Examples of the spec\<close>

lemma fieldName_priority: "fieldName ''Priority (1-5)'' = ''priority''"
  by code_simp

lemma category_health: "category_segment ''Health Care(s)'' = ''health-cares''"
  by code_simp

lemma serialize_doc_a:
  "serialize doc_a =
     ''title = '' @ [CHR 0x22] @ ''Cloud'' @ [CHR 0x22, CHR 0x0A]
     @ ''[links]'' @ [CHR 0x0A]
     @ ''code = '' @ [CHR 0x22] @ ''c'' @ [CHR 0x22, CHR 0x0A]
     @ ''web = '' @ [CHR 0x22] @ ''w'' @ [CHR 0x22, CHR 0x0A]"
  by code_simp

lemma importLaddr_example:
  "importLaddr get_tags (Some ''example.org'') =
     ([Get ''http://example.org/tags'',
       Warn ''skipping unprefixed tag: orphan'',
       Warn ''skipping unhandled tag prefix: misc'',
       WriteChild ''tech/cloud.toml''
         (''title = '' @ [CHR 0x22] @ ''Cloud computing'' @ [CHR 0x22, CHR 0x0A]),
       WriteTree],
      Inr ())"
  by code_simp

lemma importMatchmaker_example:
  "importMatchmaker (serve payload_water) None =
     ([Get matchmaker_default,
       WriteChild ''clean-water.toml''
         (''description = '' @ [CHR 0x22] @ ''...'' @ [CHR 0x22, CHR 0x0A]),
       WriteTree],
      Inr ())"
  by code_simp

lemma importDemocracyLab_example:
  "importDemocracyLab (serve ([row_murals], End)) None =
     ([Warn (''downloading '' @ democracylab_default), Get democracylab_default,
       WriteChild ''arts/murals.toml''
         (''caption = '' @ [CHR 0x22] @ ''Painted walls'' @ [CHR 0x22, CHR 0x0A]),
       WriteTree],
      Some (Inr ()))"
  by code_simp

subsection \<open>Handle-Prefixed adapter\<close>

text \<open>
  C2: the handle is split on the first \<open>.\<close> into prefix and tag, and the tag of a handle
  with more than one \<open>.\<close> is everything after the first \<open>.\<close>. The code keeps the first
  two pieces of \<open>split('.', 2)\<close>, so the handle \<open>tech.node.js\<close> is written to
  \<open>tech/node.toml\<close>, not to \<open>tech/node.js.toml\<close>.
\<close>

theorem laddr_second_dot:
  "map fst (written (importLaddr
      (serve [\<lparr>Handle = ''tech.node.js'', Title = JStr ''Node.js''\<rparr>]) (Some ''example.org'')))
   = [''tech/node.toml'']"
  by code_simp

subsection \<open>CSV-Categorized adapter\<close>

text \<open>
  C3: every run of white space inside a column header becomes one underscore. The code
  replaces the first run only: the header \<open>Date Last Updated\<close> becomes the field name
  \<open>date_last updated\<close>, not \<open>date_last_updated\<close>.
\<close>

theorem fieldName_second_run: "fieldName ''Date Last Updated'' = ''date_last updated''"
  by code_simp

text \<open>
  C4: every run of white space in the category becomes a hyphen in the subdirectory of
  the path. The code replaces the first run only: a row of category \<open>Arts and Culture\<close>
  is written under \<open>arts-and culture\<close>, not under \<open>arts-and-culture\<close>.
\<close>

theorem category_second_run:
  "map fst (written (importDemocracyLab
      (serve ([[(''Canonical Name'', ''murals''), (''Category'', ''Arts and Culture'')]], End)) None))
   = [''arts-and culture/murals.toml'']"
  by code_simp

subsection \<open>Source locations\<close>

text \<open>
  C5, as stated: every adapter falls back to a default location when the source is
  omitted. The Handle-Prefixed adapter has no default: it prints the missing value into
  the location it requests.
\<close>

theorem laddr_url_omitted:
  "fst (importLaddr get_fails None) = [Get ''http://undefined/tags'']"
  by code_simp

text \<open>
  C5, amended: with the source omitted, the Flat-Keyed and the CSV-Categorized adapter run
  exactly as they do on their fixed default location; the Handle-Prefixed adapter has no
  default and requests \<open>http://{source}/tags\<close> for the host it is given.
\<close>

theorem default_locations:
  "importMatchmaker get None = importMatchmaker get (Some matchmaker_default)
   \<and> importDemocracyLab get' None = importDemocracyLab get' (Some democracylab_default)
   \<and> (\<exists>effects. fst (importLaddr get'' (Some host)) = Get (''http://'' @ host @ ''/tags'') # effects)"
  by (auto simp: importMatchmaker_def importDemocracyLab_def importLaddr_def matchmaker_url_def
      democracylab_url_def laddr_url_def or_default_def falsy_def template_def
      matchmaker_default_def democracylab_default_def Let_def split: sum.splits)

theorem default_locations_witness:
  "importMatchmaker (serve payload_water) None
     = importMatchmaker (serve payload_water) (Some matchmaker_default)
   \<and> importDemocracyLab (serve ([row_murals], End)) None
     = importDemocracyLab (serve ([row_murals], End)) (Some democracylab_default)
   \<and> (\<exists>effects. fst (importLaddr get_tags (Some ''example.org''))
         = Get (''http://'' @ ''example.org'' @ ''/tags'') # effects)"
  using default_locations [of "serve payload_water" "serve ([row_murals], End)" get_tags
      "''example.org''"]
  by simp

subsection \<open>Fatal failures\<close>

text \<open>
  What holds on the failure paths. When \<open>axios.get\<close> is rejected, in any adapter, or
  the CSV decoder reports an error, the run ends with that error. On those paths, and
  also when the response stream of the CSV-Categorized adapter fails during the
  download, nothing has been written to the tree and the tree is not finalized.
\<close>

lemma failure_paths:
  "(get (laddr_url source) = Inl e \<longrightarrow>
      snd (importLaddr get source) = Inl e
      \<and> written (importLaddr get source) = []
      \<and> \<not> finalized (importLaddr get source))
   \<and> (get' (matchmaker_url source) = Inl e \<longrightarrow>
      snd (importMatchmaker get' source) = Inl e
      \<and> written (importMatchmaker get' source) = []
      \<and> \<not> finalized (importMatchmaker get' source))
   \<and> ((get'' (democracylab_url source) = Inl e
        \<or> get'' (democracylab_url source) = Inr (rows, Failed e)) \<longrightarrow>
      snd (importDemocracyLab get'' source) = Some (Inl e)
      \<and> written (importDemocracyLab get'' source) = []
      \<and> \<not> finalized (importDemocracyLab get'' source))
   \<and> (get'' (democracylab_url source) = Inr (rows, Aborted) \<longrightarrow>
      snd (importDemocracyLab get'' source) = None
      \<and> written (importDemocracyLab get'' source) = []
      \<and> \<not> finalized (importDemocracyLab get'' source))"
  by (auto simp: importMatchmaker_def importDemocracyLab_def importLaddr_def Let_def
      written_def finalized_def)

text \<open>
  C9: in every adapter, when the fetch or decode collaborator reports a failure, the run
  aborts as a fatal error. In the CSV-Categorized adapter the code listens for errors on
  the decoder only: when the response stream fails after \<open>axios.get\<close> has resolved, the
  promise of the run is neither resolved nor rejected, so the run does not abort; it
  never ends.
\<close>

theorem response_stream_failure_pending:
  "importDemocracyLab (serve ([row_murals], Aborted)) None =
     ([Warn (''downloading '' @ democracylab_default), Get democracylab_default], None)"
  by code_simp

subsection \<open>Absent fields\<close>

lemma distinct_assign_string:
  "distinct (map fst obj) \<Longrightarrow> distinct (map fst (assign_string k v obj))"
  by (simp add: assign_string_def distinct_update)

lemma distinct_foldl_assign:
  "distinct (map fst acc) \<Longrightarrow>
   distinct (map fst (foldl (\<lambda>tagData (columnName, v). assign_string (f columnName) v tagData) acc es))"
  by (induction es arbitrary: acc) (auto simp: distinct_assign_string)

lemma distinct_on_data: "distinct (map fst (on_data row))"
  by (simp add: on_data_def distinct_foldl_assign)

lemma distinct_democracylab_doc:
  assumes "distinct (map fst tagData)"
  shows "distinct (map fst (democracylab_doc tagData))"
proof -
  have "map fst (map (\<lambda>(k, v). (k, JStr v)) (own_entries tagData)) = map fst (own_entries tagData)"
    by (simp add: case_prod_unfold comp_def)
  with distinct_own_entries [OF assms]
  have "distinct (map fst (map (\<lambda>(k, v). (k, JStr v)) (own_entries tagData)))"
    by (simp only:)
  then show ?thesis by (simp add: democracylab_doc_def distinct_update)
qed

lemma optional_democracylab_doc:
  assumes "k \<in> {''parent'', ''subcategory'', ''caption''}"
  shows "map_of (democracylab_doc tagData) k = Some (or_null (map_of tagData k))"
  using assms by (auto simp: democracylab_doc_def update_conv')

text \<open>
  C7: serializing a document gives the bytes of the document with every absent field
  removed, at every nesting level, and that document holds no absence marker; a blank or
  missing \<open>parent\<close>, \<open>subcategory\<close> or \<open>caption\<close> column of a CSV row is such an
  absent field, so it is not in the output, not even as an empty string.
\<close>

theorem absent_fields_omitted:
  "serialize doc = serialize (strip_nulls doc)
   \<and> null_free (JObj (strip_nulls doc))
   \<and> (k \<in> {''parent'', ''subcategory'', ''caption''} \<and> falsy (map_of (on_data row) k) \<longrightarrow>
        map_of (strip_nulls (democracylab_doc (on_data row))) k = None)"
proof (intro conjI impI)
  show "serialize doc = serialize (strip_nulls doc)"
    by (simp add: serialize_strip_nulls)
  show "null_free (JObj (strip_nulls doc))"
    by (simp add: null_free_strip_nulls)
next
  assume a: "k \<in> {''parent'', ''subcategory'', ''caption''} \<and> falsy (map_of (on_data row) k)"
  then have "map_of (democracylab_doc (on_data row)) k = Some JNull"
    using optional_democracylab_doc [of k "on_data row"] by (simp add: or_null_def)
  with distinct_democracylab_doc [OF distinct_on_data]
  show "map_of (strip_nulls (democracylab_doc (on_data row))) k = None"
    by (rule map_of_strip_nulls)
qed

theorem absent_fields_omitted_witness:
  "serialize doc_a = serialize (strip_nulls doc_a)
   \<and> map_of doc_a ''handle'' = Some JNull
   \<and> null_free (JObj (strip_nulls doc_a))
   \<and> map_of (on_data row_murals) ''parent'' = Some []
   \<and> map_of (strip_nulls (democracylab_doc (on_data row_murals))) ''parent'' = None"
proof -
  have p: "map_of (on_data row_murals) ''parent'' = Some []" by code_simp
  then have f: "falsy (map_of (on_data row_murals) ''parent'')" by (simp add: falsy_def)
  have h: "map_of doc_a ''handle'' = Some JNull" by (simp add: doc_a_def)
  from p f h absent_fields_omitted [of doc_a "''parent''" row_murals] show ?thesis by simp
qed

subsection \<open>Dropped records\<close>

lemma written_importLaddr:
  "written (importLaddr (serve data) source) =
   laddr_writes (tagsByPrefix (foldl load_tag init_state data))"
proof -
  have w: "concat (map (\<lambda>e. case e of WriteChild p b \<Rightarrow> [(p, b)] | _ \<Rightarrow> []) (map Warn ws)) = []" for ws
    by (induction ws) simp_all
  have c: "concat (map (\<lambda>e. case e of WriteChild p b \<Rightarrow> [(p, b)] | _ \<Rightarrow> [])
             (map (\<lambda>(path, toml). WriteChild path toml) cs)) = cs" for cs
    by (induction cs) auto
  show ?thesis
    by (simp add: written_def importLaddr_def serve_def Let_def w c del: map_map)
qed

lemma warnings_importLaddr:
  "warnings (importLaddr (serve data) source) = warned (foldl load_tag init_state data)"
proof -
  have w: "concat (map (\<lambda>e. case e of Warn m \<Rightarrow> [m] | _ \<Rightarrow> []) (map Warn ws)) = ws" for ws
    by (induction ws) simp_all
  have c: "concat (map (\<lambda>e. case e of Warn m \<Rightarrow> [m] | _ \<Rightarrow> [])
             (map (\<lambda>(path, toml). WriteChild path toml) cs)) = []" for cs
    by (induction cs) auto
  show ?thesis
    by (simp add: warnings_def importLaddr_def serve_def Let_def w c del: map_map)
qed

lemma result_importLaddr: "snd (importLaddr (serve data) source) = Inr ()"
  by (simp add: importLaddr_def serve_def Let_def)

lemma split_all_no_sep: "sep \<notin> set s \<Longrightarrow> split_all sep s = [s]"
  by (induction s) auto

lemma prefix_tag_no_dot: "CHR ''.'' \<notin> set h \<Longrightarrow> prefix_tag h = (Some h, None)"
  by (simp add: prefix_tag_def split_limit_def split_all_no_sep)

text \<open>The two-level map after a record depends on the two-level map before it only.\<close>

lemma tagsByPrefix_load_tag:
  "tagsByPrefix st = tagsByPrefix st' \<Longrightarrow>
   tagsByPrefix (load_tag st r) = tagsByPrefix (load_tag st' r)"
  by (simp add: load_tag_def Let_def split: prod.splits)

lemma tagsByPrefix_foldl:
  "tagsByPrefix st = tagsByPrefix st' \<Longrightarrow>
   tagsByPrefix (foldl load_tag st rs) = tagsByPrefix (foldl load_tag st' rs)"
proof (induction rs arbitrary: st st')
  case (Cons r rs)
  from Cons.prems have "tagsByPrefix (load_tag st r) = tagsByPrefix (load_tag st' r)"
    by (rule tagsByPrefix_load_tag)
  then have "tagsByPrefix (foldl load_tag (load_tag st r) rs)
             = tagsByPrefix (foldl load_tag (load_tag st' r) rs)"
    by (rule Cons.IH)
  then show ?case by simp
qed simp

lemma load_tag_dropped:
  assumes "accepted r = None"
  shows "tagsByPrefix (load_tag st r) = tagsByPrefix st"
  using assms by (auto simp: load_tag_def accepted_def Let_def split: prod.splits if_splits)

lemma dropped_record_no_trace:
  assumes "accepted r = None"
  shows "tagsByPrefix (foldl load_tag st (xs @ r # ys)) = tagsByPrefix (foldl load_tag st (xs @ ys))"
proof -
  have "tagsByPrefix (load_tag (foldl load_tag st xs) r) = tagsByPrefix (foldl load_tag st xs)"
    using assms by (rule load_tag_dropped)
  then have "tagsByPrefix (foldl load_tag (load_tag (foldl load_tag st xs) r) ys)
             = tagsByPrefix (foldl load_tag (foldl load_tag st xs) ys)"
    by (rule tagsByPrefix_foldl)
  then show ?thesis by simp
qed

text \<open>
  C6, amended: a record whose handle has no \<open>.\<close>, or whose tag (the piece after the
  first \<open>.\<close>) is empty, is dropped with the warning for an unprefixed tag; a record with
  a tag and the prefix \<open>event\<close> is dropped with no warning; a record with a tag and a
  prefix other than \<open>event\<close>, \<open>tech\<close> and \<open>topic\<close> is dropped with the warning for an
  unhandled prefix. In every case the run writes what it writes without the record, and
  it ends well.
\<close>

theorem laddr_dropped_records:
  assumes "prefix_tag (Handle r) = (prefix, tag)"
  shows "(CHR ''.'' \<notin> set (Handle r) \<longrightarrow> falsy tag)
     \<and> (falsy tag \<longrightarrow>
          load_tag st r = st\<lparr>warned := warned st @ [''skipping unprefixed tag: '' @ Handle r]\<rparr>)
     \<and> (\<not> falsy tag \<and> prefix = Some ''event'' \<longrightarrow> load_tag st r = st)
     \<and> (\<not> falsy tag \<and> prefix \<noteq> Some ''event'' \<and> prefix \<noteq> Some ''tech'' \<and> prefix \<noteq> Some ''topic'' \<longrightarrow>
          load_tag st r =
            st\<lparr>warned := warned st @ [''skipping unhandled tag prefix: '' @ template prefix]\<rparr>)
     \<and> (falsy tag \<or> (prefix \<noteq> Some ''tech'' \<and> prefix \<noteq> Some ''topic'') \<longrightarrow>
          written (importLaddr (serve (xs @ r # ys)) source)
            = written (importLaddr (serve (xs @ ys)) source)
          \<and> snd (importLaddr (serve (xs @ r # ys)) source) = Inr ())"
proof (intro conjI impI)
  assume "CHR ''.'' \<notin> set (Handle r)"
  with assms show "falsy tag" by (simp add: prefix_tag_no_dot falsy_def)
next
  assume "falsy tag"
  with assms show "load_tag st r = st\<lparr>warned := warned st @ [''skipping unprefixed tag: '' @ Handle r]\<rparr>"
    by (simp add: load_tag_def)
next
  assume "\<not> falsy tag \<and> prefix = Some ''event''"
  with assms show "load_tag st r = st" by (simp add: load_tag_def)
next
  assume "\<not> falsy tag \<and> prefix \<noteq> Some ''event'' \<and> prefix \<noteq> Some ''tech'' \<and> prefix \<noteq> Some ''topic''"
  with assms show "load_tag st r =
      st\<lparr>warned := warned st @ [''skipping unhandled tag prefix: '' @ template prefix]\<rparr>"
    by (simp add: load_tag_def)
next
  assume "falsy tag \<or> (prefix \<noteq> Some ''tech'' \<and> prefix \<noteq> Some ''topic'')"
  with assms have "accepted r = None" by (auto simp: accepted_def)
  then show "written (importLaddr (serve (xs @ r # ys)) source)
            = written (importLaddr (serve (xs @ ys)) source)"
    by (simp only: written_importLaddr dropped_record_no_trace)
next
  show "snd (importLaddr (serve (xs @ r # ys)) source) = Inr ()"
    by (rule result_importLaddr)
qed

theorem laddr_dropped_records_witness:
  "load_tag init_state rec_orphan
     = init_state\<lparr>warned := [''skipping unprefixed tag: orphan'']\<rparr>
   \<and> load_tag init_state rec_event = init_state
   \<and> load_tag init_state rec_misc
     = init_state\<lparr>warned := [''skipping unhandled tag prefix: misc'']\<rparr>
   \<and> written (importLaddr (serve ([rec_cloud] @ rec_event # [rec_cloud2])) None)
     = written (importLaddr (serve ([rec_cloud] @ [rec_cloud2])) None)"
proof -
  have o: "prefix_tag (Handle rec_orphan) = (Some ''orphan'', None)" by code_simp
  have e: "prefix_tag (Handle rec_event) = (Some ''event'', Some ''launch'')" by code_simp
  have m: "prefix_tag (Handle rec_misc) = (Some ''misc'', Some ''widget'')" by code_simp
  have h: "Handle rec_orphan = ''orphan''" by (simp add: rec_orphan_def)
  from laddr_dropped_records [OF o, of init_state "[]" "[]" None]
    laddr_dropped_records [OF e, of init_state "[rec_cloud]" "[rec_cloud2]" None]
    laddr_dropped_records [OF m, of init_state "[]" "[]" None]
  show ?thesis by (simp add: falsy_def template_def init_state_def h)
qed

text \<open>
  C6, as stated: a record whose prefix is \<open>event\<close> is dropped with no warning. The
  handle \<open>event.\<close> has the prefix \<open>event\<close> and an empty tag, and the code warns.
\<close>

theorem event_empty_tag_warned:
  "fst (prefix_tag ''event.'') = Some ''event''
   \<and> warned (load_tag init_state \<lparr>Handle = ''event.'', Title = JStr ''Launch''\<rparr>)
       = [''skipping unprefixed tag: event.'']"
  by code_simp

subsection \<open>Flat-Keyed adapter\<close>

lemma map_of_strip_nulls_string:
  "distinct (map fst fs) \<Longrightarrow> map_of fs k = Some (JStr s) \<Longrightarrow>
   map_of (strip_nulls fs) k = Some (JStr s)"
proof (induction fs rule: strip_nulls.induct)
  case (2 k' fs)
  then show ?case by (auto split: if_splits)
next
  case (3 k' s' fs)
  then show ?case by (auto split: if_splits)
next
  case (4 k' sub fs)
  then show ?case by (auto split: if_splits)
qed simp

lemma written_importMatchmaker:
  "written (importMatchmaker (serve data) source) = matchmaker_writes data"
proof -
  have c: "concat (map (\<lambda>e. case e of WriteChild p b \<Rightarrow> [(p, b)] | _ \<Rightarrow> [])
             (map (\<lambda>(path, toml). WriteChild path toml) cs)) = cs" for cs
    by (induction cs) auto
  show ?thesis
    by (simp add: written_def importMatchmaker_def serve_def c del: map_map)
qed

lemma paths_matchmaker_writes:
  "map fst (matchmaker_writes data) = map (\<lambda>tag. tag @ ''.toml'') (own_keys data)"
  by (simp add: matchmaker_writes_def own_keys_def case_prod_unfold comp_def)

lemma distinct_matchmaker_writes:
  assumes "distinct (map fst data)"
  shows "distinct (map fst (matchmaker_writes data))"
proof -
  have "inj_on (\<lambda>tag. tag @ ''.toml'') (set (own_keys data))"
    by (rule inj_onI) simp
  moreover have "distinct (own_keys data)"
    using distinct_own_entries [OF assms] by (simp add: own_keys_def)
  ultimately show ?thesis
    by (simp only: paths_matchmaker_writes distinct_map simp_thms)
qed

lemma map_of_matchmaker_writes:
  assumes "distinct (map fst data)" and "(tag, tagData) \<in> set data"
  shows "map_of (matchmaker_writes data) (tag @ ''.toml'') = Some (serialize (matchmaker_doc tagData))"
proof -
  from assms(2) have "(tag, tagData) \<in> set (own_entries data)"
    by (simp add: set_own_entries)
  then have "(tag @ ''.toml'', serialize (matchmaker_doc tagData)) \<in> set (matchmaker_writes data)"
    by (force simp: matchmaker_writes_def)
  with distinct_matchmaker_writes [OF assms(1)] show ?thesis by simp
qed

lemma map_of_matchmaker_doc:
  assumes "distinct (map fst tagData)"
  shows "map_of (matchmaker_doc tagData) = (map_of tagData)(''class_name'' \<mapsto> JNull)"
  by (simp add: matchmaker_doc_def update_conv' map_of_own_entries [OF assms])

lemma distinct_matchmaker_doc:
  assumes "distinct (map fst tagData)"
  shows "distinct (map fst (matchmaker_doc tagData))"
  by (simp add: matchmaker_doc_def distinct_update distinct_own_entries [OF assms])

text \<open>
  C8: for a payload whose keys, and the keys of each record, are pairwise different, the
  Flat-Keyed adapter writes one document for each key, at the path \<open>{key}.toml\<close>; the
  document holds every field of the record but \<open>class_name\<close>, which is set to the
  absence marker and so is not in the serialized bytes.
\<close>

theorem matchmaker_documents:
  assumes "distinct (map fst data)"
    and "\<forall>(tag, tagData) \<in> set data. distinct (map fst tagData)"
  shows "map fst (written (importMatchmaker (serve data) source))
           = map (\<lambda>tag. tag @ ''.toml'') (own_keys data)
     \<and> set (own_keys data) = fst ` set data
     \<and> distinct (map fst (written (importMatchmaker (serve data) source)))
     \<and> (\<forall>(tag, tagData) \<in> set data.
          map_of (written (importMatchmaker (serve data) source)) (tag @ ''.toml'')
            = Some (serialize (matchmaker_doc tagData))
          \<and> serialize (matchmaker_doc tagData) = serialize (strip_nulls (matchmaker_doc tagData))
          \<and> map_of (strip_nulls (matchmaker_doc tagData)) ''class_name'' = None
          \<and> (\<forall>f. f \<noteq> ''class_name'' \<longrightarrow>
                map_of (matchmaker_doc tagData) f = map_of tagData f)
          \<and> (\<forall>f s. f \<noteq> ''class_name'' \<and> map_of tagData f = Some (JStr s) \<longrightarrow>
                map_of (strip_nulls (matchmaker_doc tagData)) f = Some (JStr s)))"
proof (intro conjI)
  show "map fst (written (importMatchmaker (serve data) source))
           = map (\<lambda>tag. tag @ ''.toml'') (own_keys data)"
    by (simp only: written_importMatchmaker paths_matchmaker_writes)
  show "set (own_keys data) = fst ` set data"
    by (simp add: own_keys_def set_own_entries)
  show "distinct (map fst (written (importMatchmaker (serve data) source)))"
    by (simp only: written_importMatchmaker distinct_matchmaker_writes [OF assms(1)])
  show "\<forall>(tag, tagData) \<in> set data.
          map_of (written (importMatchmaker (serve data) source)) (tag @ ''.toml'')
            = Some (serialize (matchmaker_doc tagData))
          \<and> serialize (matchmaker_doc tagData) = serialize (strip_nulls (matchmaker_doc tagData))
          \<and> map_of (strip_nulls (matchmaker_doc tagData)) ''class_name'' = None
          \<and> (\<forall>f. f \<noteq> ''class_name'' \<longrightarrow>
                map_of (matchmaker_doc tagData) f = map_of tagData f)
          \<and> (\<forall>f s. f \<noteq> ''class_name'' \<and> map_of tagData f = Some (JStr s) \<longrightarrow>
                map_of (strip_nulls (matchmaker_doc tagData)) f = Some (JStr s))"
  proof (intro ballI, clarify, intro conjI allI impI)
    fix tag tagData
    assume m: "(tag, tagData) \<in> set data"
    with assms(2) have d: "distinct (map fst tagData)" by auto
    note md = map_of_matchmaker_doc [OF d] and dd = distinct_matchmaker_doc [OF d]
    show "map_of (written (importMatchmaker (serve data) source)) (tag @ ''.toml'')
            = Some (serialize (matchmaker_doc tagData))"
      by (simp only: written_importMatchmaker map_of_matchmaker_writes [OF assms(1) m])
    show "serialize (matchmaker_doc tagData) = serialize (strip_nulls (matchmaker_doc tagData))"
      by (simp add: serialize_strip_nulls)
    show "map_of (strip_nulls (matchmaker_doc tagData)) ''class_name'' = None"
      using dd by (rule map_of_strip_nulls) (simp add: md)
    show "map_of (matchmaker_doc tagData) f = map_of tagData f" if "f \<noteq> ''class_name''" for f
      using that by (simp add: md)
    show "map_of (strip_nulls (matchmaker_doc tagData)) f = Some (JStr s)"
      if "f \<noteq> ''class_name'' \<and> map_of tagData f = Some (JStr s)" for f s
      using dd by (rule map_of_strip_nulls_string) (use that in \<open>simp add: md\<close>)
  qed
qed

theorem matchmaker_documents_witness:
  "distinct (map fst payload_water)
   \<and> map fst (written (importMatchmaker (serve payload_water) None)) = [''clean-water.toml'']
   \<and> map_of (strip_nulls (matchmaker_doc (snd (hd payload_water)))) ''class_name'' = None
   \<and> map_of (strip_nulls (matchmaker_doc (snd (hd payload_water)))) ''description'' = Some (JStr ''...'')"
proof -
  have d: "distinct (map fst payload_water)" by (simp add: payload_water_def)
  have e: "\<forall>(tag, tagData) \<in> set payload_water. distinct (map fst tagData)"
    by (simp add: payload_water_def)
  have k: "own_keys payload_water = [''clean-water'']" by code_simp
  have h: "hd payload_water \<in> set payload_water" "fst (hd payload_water) = ''clean-water''"
    "map_of (snd (hd payload_water)) ''description'' = Some (JStr ''...'')"
    by (simp_all add: payload_water_def)
  from matchmaker_documents [OF d e, of None] d k h show ?thesis
    by (auto simp: case_prod_unfold)
qed

subsection \<open>Records with the same prefix and tag\<close>

lemma accepted_cases:
  "accepted r = Some (p, t) \<longleftrightarrow>
     (prefix_tag (Handle r) = (Some p, Some t) \<and> t \<noteq> [] \<and> (p = ''tech'' \<or> p = ''topic''))"
  by (auto simp: accepted_def falsy_def template_def split: prod.splits option.splits)

lemma load_tag_accepted:
  assumes "accepted r = Some (p, t)"
  shows "tagsByPrefix (load_tag st r) =
     AList.update p (AList.update t (tag_entry r)
        (case map_of (tagsByPrefix st) p of None \<Rightarrow> [] | Some ts \<Rightarrow> ts)) (tagsByPrefix st)"
  using assms
  by (auto simp: accepted_def load_tag_def falsy_def template_def Let_def
      split: prod.splits option.splits if_splits)

lemma stored_load_tag:
  "stored (tagsByPrefix (load_tag st r)) p t =
     (if accepted r = Some (p, t) then Some (tag_entry r) else stored (tagsByPrefix st) p t)"
proof (cases "accepted r")
  case None
  then show ?thesis by (simp add: load_tag_dropped)
next
  case (Some pt)
  obtain p' t' where pt: "pt = (p', t')" by (cases pt)
  with Some have a: "accepted r = Some (p', t')" by simp
  show ?thesis
    unfolding load_tag_accepted [OF a] stored_def a
    by (auto simp: update_conv' split: option.splits)
qed

lemma stored_foldl:
  "stored (tagsByPrefix (foldl load_tag st data)) p t =
     (case filter (\<lambda>x. accepted x = Some (p, t)) data of
        [] \<Rightarrow> stored (tagsByPrefix st) p t
      | x # xs \<Rightarrow> Some (tag_entry (last (x # xs))))"
proof (induction data arbitrary: st)
  case Nil
  show ?case by simp
next
  case (Cons r rs)
  show ?case
    by (cases "filter (\<lambda>x. accepted x = Some (p, t)) rs")
      (simp_all add: Cons.IH stored_load_tag)
qed

lemma set_update_subset: "set (AList.update k v al) \<subseteq> insert (k, v) (set al)"
  by (induction al) auto

lemma well_keyed_load_tag:
  assumes "well_keyed (tagsByPrefix st)"
  shows "well_keyed (tagsByPrefix (load_tag st r))"
proof (cases "accepted r")
  case None
  with assms show ?thesis by (simp add: load_tag_dropped)
next
  case (Some pt)
  obtain p t where pt: "pt = (p, t)" by (cases pt)
  with Some have a: "accepted r = Some (p, t)" by simp
  then have p: "p = ''tech'' \<or> p = ''topic''" by (simp only: accepted_cases)
  let ?tags = "case map_of (tagsByPrefix st) p of None \<Rightarrow> [] | Some ts \<Rightarrow> ts"
  have "distinct (map fst ?tags)"
  proof (cases "map_of (tagsByPrefix st) p")
    case None
    then show ?thesis by simp
  next
    case (Some ts)
    then have "(p, ts) \<in> set (tagsByPrefix st)" by (rule map_of_SomeD)
    with assms Some show ?thesis by (auto simp: well_keyed_def list_all_iff)
  qed
  then have d: "distinct (map fst (AList.update t (tag_entry r) ?tags))"
    by (rule distinct_update)
  have "list_all (\<lambda>(p, ts). (p = ''tech'' \<or> p = ''topic'') \<and> distinct (map fst ts))
          (AList.update p (AList.update t (tag_entry r) ?tags) (tagsByPrefix st))"
    unfolding list_all_iff
  proof
    fix x assume "x \<in> set (AList.update p (AList.update t (tag_entry r) ?tags) (tagsByPrefix st))"
    with set_update_subset
    have "x = (p, AList.update t (tag_entry r) ?tags) \<or> x \<in> set (tagsByPrefix st)" by fastforce
    then show "case x of (p, ts) \<Rightarrow> (p = ''tech'' \<or> p = ''topic'') \<and> distinct (map fst ts)"
      using p d assms by (auto simp: well_keyed_def list_all_iff)
  qed
  moreover from assms have "distinct (map fst (AList.update p (AList.update t (tag_entry r) ?tags) (tagsByPrefix st)))"
    by (simp add: well_keyed_def distinct_update)
  ultimately show ?thesis
    unfolding load_tag_accepted [OF a] well_keyed_def by simp
qed

lemma well_keyed_foldl:
  "well_keyed (tagsByPrefix st) \<Longrightarrow> well_keyed (tagsByPrefix (foldl load_tag st data))"
  by (induction data arbitrary: st) (simp_all add: well_keyed_load_tag)

lemma well_keyed_init: "well_keyed (tagsByPrefix init_state)"
  by (simp add: well_keyed_def init_state_def)

lemma laddr_path_inject:
  assumes "p = ''tech'' \<or> p = ''topic''" and "p' = ''tech'' \<or> p' = ''topic''"
    and "laddr_path p t = laddr_path p' t'"
  shows "p = p' \<and> t = t'"
  using assms by (auto simp: laddr_path_def)

lemma distinct_laddr_paths:
  assumes "distinct (map fst ps)"
    and "list_all (\<lambda>(p, ts). (p = ''tech'' \<or> p = ''topic'') \<and> distinct (map fst ts)) ps"
  shows "distinct (concat (map (\<lambda>(p, ts). map (\<lambda>(t, d). laddr_path p t) (own_entries ts)) ps))"
  using assms
proof (induction ps)
  case Nil
  show ?case by simp
next
  case (Cons x ps)
  obtain p ts where x: "x = (p, ts)" by (cases x)
  from Cons.prems x have p: "p = ''tech'' \<or> p = ''topic''" and dts: "distinct (map fst ts)"
    and pn: "p \<notin> fst ` set ps" and rest: "distinct (map fst ps)"
      "list_all (\<lambda>(p, ts). (p = ''tech'' \<or> p = ''topic'') \<and> distinct (map fst ts)) ps"
    by simp_all
  have head: "distinct (map (\<lambda>(t, d). laddr_path p t) (own_entries ts))"
  proof -
    have "map (\<lambda>(t, d). laddr_path p t) (own_entries ts) = map (laddr_path p) (map fst (own_entries ts))"
      by (simp add: case_prod_unfold comp_def)
    moreover have "inj_on (laddr_path p) (set (map fst (own_entries ts)))"
      by (rule inj_onI) (simp add: laddr_path_def)
    ultimately show ?thesis
      using distinct_own_entries [OF dts] by (simp only: distinct_map simp_thms)
  qed
  have disj: "set (map (\<lambda>(t, d). laddr_path p t) (own_entries ts))
        \<inter> set (concat (map (\<lambda>(p, ts). map (\<lambda>(t, d). laddr_path p t) (own_entries ts)) ps)) = {}"
  proof (rule ccontr)
    assume "\<not> ?thesis"
    then obtain y where y1: "y \<in> set (map (\<lambda>(t, d). laddr_path p t) (own_entries ts))"
      and y2: "y \<in> set (concat (map (\<lambda>(p, ts). map (\<lambda>(t, d). laddr_path p t) (own_entries ts)) ps))"
      by blast
    from y1 obtain t where t: "y = laddr_path p t" by auto
    from y2 obtain p' ts' t' where m: "(p', ts') \<in> set ps" and t': "y = laddr_path p' t'" by auto
    from m rest(2) have "p' = ''tech'' \<or> p' = ''topic''" by (auto simp: list_all_iff)
    with p t t' have "p = p'" using laddr_path_inject [of p p' t t'] by simp
    with m pn show False by force
  qed
  from head disj Cons.IH [OF rest] show ?case by (simp add: x)
qed

lemma paths_laddr_writes:
  "map fst (laddr_writes tbp) =
   concat (map (\<lambda>(p, ts). map (\<lambda>(t, d). laddr_path p t) (own_entries ts)) (own_entries tbp))"
  by (simp add: laddr_writes_def map_concat case_prod_unfold comp_def)

lemma distinct_laddr_writes:
  assumes "well_keyed tbp"
  shows "distinct (map fst (laddr_writes tbp))"
proof -
  from assms have "distinct (map fst (own_entries tbp))"
    by (simp add: well_keyed_def distinct_own_entries)
  moreover from assms
  have "list_all (\<lambda>(p, ts). (p = ''tech'' \<or> p = ''topic'') \<and> distinct (map fst ts)) (own_entries tbp)"
    by (simp add: well_keyed_def list_all_iff set_own_entries)
  ultimately show ?thesis
    unfolding paths_laddr_writes by (rule distinct_laddr_paths)
qed

lemma laddr_writes_I:
  assumes "(p, ts) \<in> set tbp" and "(t, d) \<in> set ts"
  shows "(laddr_path p t, serialize (laddr_doc d)) \<in> set (laddr_writes tbp)"
proof -
  from assms(2) have "(laddr_path p t, serialize (laddr_doc d))
      \<in> set (map (\<lambda>(tag, tagData). (laddr_path p tag, serialize (laddr_doc tagData))) (own_entries ts))"
    by (force simp: set_own_entries)
  moreover from assms(1) have "(p, ts) \<in> set (own_entries tbp)"
    by (simp add: set_own_entries)
  ultimately show ?thesis
    unfolding laddr_writes_def set_concat set_map by force
qed

lemma laddr_writes_E:
  assumes "x \<in> set (laddr_writes tbp)"
  shows "\<exists>p ts t d. (p, ts) \<in> set tbp \<and> (t, d) \<in> set ts
           \<and> x = (laddr_path p t, serialize (laddr_doc d))"
proof -
  from assms obtain e where e: "e \<in> set (own_entries tbp)"
    and x: "x \<in> set (case e of (prefix, tags) \<Rightarrow>
               map (\<lambda>(tag, tagData). (laddr_path prefix tag, serialize (laddr_doc tagData)))
                   (own_entries tags))"
    unfolding laddr_writes_def set_concat set_map by blast
  obtain p ts where pts: "e = (p, ts)" by (cases e)
  from x pts obtain f where f: "f \<in> set (own_entries ts)"
    and xf: "x = (case f of (tag, tagData) \<Rightarrow> (laddr_path p tag, serialize (laddr_doc tagData)))"
    by auto
  obtain t d where td: "f = (t, d)" by (cases f)
  from e pts have "(p, ts) \<in> set tbp" by (simp add: set_own_entries)
  moreover from f td have "(t, d) \<in> set ts" by (simp add: set_own_entries)
  moreover from xf td have "x = (laddr_path p t, serialize (laddr_doc d))" by simp
  ultimately show ?thesis by blast
qed

lemma stored_iff:
  assumes "well_keyed tbp"
  shows "stored tbp p t = Some d \<longleftrightarrow> (\<exists>ts. (p, ts) \<in> set tbp \<and> (t, d) \<in> set ts)"
proof
  assume "stored tbp p t = Some d"
  then obtain ts where "map_of tbp p = Some ts" "map_of ts t = Some d"
    by (auto simp: stored_def split: option.splits)
  then show "\<exists>ts. (p, ts) \<in> set tbp \<and> (t, d) \<in> set ts"
    by (blast dest: map_of_SomeD)
next
  assume "\<exists>ts. (p, ts) \<in> set tbp \<and> (t, d) \<in> set ts"
  then obtain ts where m: "(p, ts) \<in> set tbp" "(t, d) \<in> set ts" by blast
  from assms m(1) have "distinct (map fst tbp)" "distinct (map fst ts)"
    by (auto simp: well_keyed_def list_all_iff)
  with m have "map_of tbp p = Some ts" "map_of ts t = Some d" by simp_all
  then show "stored tbp p t = Some d" by (simp add: stored_def)
qed

lemma map_of_laddr_writes:
  assumes "well_keyed tbp" and "stored tbp p t = Some d"
  shows "map_of (laddr_writes tbp) (laddr_path p t) = Some (serialize (laddr_doc d))"
proof -
  from assms(2) obtain ts where "(p, ts) \<in> set tbp" "(t, d) \<in> set ts"
    unfolding stored_iff [OF assms(1)] by blast
  then have "(laddr_path p t, serialize (laddr_doc d)) \<in> set (laddr_writes tbp)"
    by (rule laddr_writes_I)
  with distinct_laddr_writes [OF assms(1)] show ?thesis by simp
qed

lemma stored_final:
  "stored (tagsByPrefix (foldl load_tag init_state data)) p t =
     (case filter (\<lambda>x. accepted x = Some (p, t)) data of
        [] \<Rightarrow> None
      | x # xs \<Rightarrow> Some (tag_entry (last (x # xs))))"
proof -
  have "stored (tagsByPrefix init_state) p t = None"
    by (simp add: stored_def init_state_def)
  then show ?thesis by (simp add: stored_foldl split: list.splits)
qed

text \<open>
  C10: when no tag is \<open>__proto__\<close>, the Handle-Prefixed adapter writes every path at
  most once; the paths written are those of the accepted records; and the document at a
  path is the one of the last record accepted for that prefix and tag.
\<close>

theorem laddr_last_record_wins:
  assumes "\<forall>r \<in> set data. snd (prefix_tag (Handle r)) \<noteq> Some ''__proto__''"
  shows "distinct (map fst (written (importLaddr (serve data) source)))
     \<and> fst ` set (written (importLaddr (serve data) source))
         = {laddr_path p t | p t. \<exists>r \<in> set data. accepted r = Some (p, t)}
     \<and> (\<forall>r \<in> set data. \<forall>p t. accepted r = Some (p, t) \<longrightarrow>
          map_of (written (importLaddr (serve data) source)) (laddr_path p t)
            = Some (serialize (laddr_doc (tag_entry
                (last (filter (\<lambda>x. accepted x = Some (p, t)) data))))))"
proof -
  let ?tbp = "tagsByPrefix (foldl load_tag init_state data)"
  have wk: "well_keyed ?tbp"
    using well_keyed_init by (rule well_keyed_foldl)
  have w: "written (importLaddr (serve data) source) = laddr_writes ?tbp"
    by (rule written_importLaddr)
  have some: "stored ?tbp p t = Some (tag_entry (last (filter (\<lambda>x. accepted x = Some (p, t)) data)))"
    if "r \<in> set data" "accepted r = Some (p, t)" for r p t
  proof -
    from that have "r \<in> set (filter (\<lambda>x. accepted x = Some (p, t)) data)" by simp
    then obtain y ys where "filter (\<lambda>x. accepted x = Some (p, t)) data = y # ys"
      by (cases "filter (\<lambda>x. accepted x = Some (p, t)) data") auto
    then show ?thesis by (simp add: stored_final)
  qed
  have none: "\<exists>r \<in> set data. accepted r = Some (p, t)" if "stored ?tbp p t = Some d" for p t d
  proof (rule ccontr)
    assume "\<not> ?thesis"
    then have "filter (\<lambda>x. accepted x = Some (p, t)) data = []"
      by (auto simp: filter_empty_conv)
    with that show False by (simp add: stored_final)
  qed
  have 1: "distinct (map fst (written (importLaddr (serve data) source)))"
    unfolding w using wk by (rule distinct_laddr_writes)
  have 2: "fst ` set (written (importLaddr (serve data) source))
         = {laddr_path p t | p t. \<exists>r \<in> set data. accepted r = Some (p, t)}"
  proof (intro set_eqI iffI)
    fix y assume "y \<in> fst ` set (written (importLaddr (serve data) source))"
    then obtain x where "x \<in> set (laddr_writes ?tbp)" "y = fst x"
      unfolding w by blast
    with laddr_writes_E [of x ?tbp]
    obtain p t d ts where "y = laddr_path p t" "(p, ts) \<in> set ?tbp" "(t, d) \<in> set ts"
      by auto
    moreover from this have "stored ?tbp p t = Some d"
      unfolding stored_iff [OF wk] by blast
    ultimately show "y \<in> {laddr_path p t | p t. \<exists>r \<in> set data. accepted r = Some (p, t)}"
      using none by blast
  next
    fix y assume "y \<in> {laddr_path p t | p t. \<exists>r \<in> set data. accepted r = Some (p, t)}"
    then obtain p t r where y: "y = laddr_path p t" and r: "r \<in> set data" "accepted r = Some (p, t)"
      by blast
    from map_of_laddr_writes [OF wk some [OF r]]
    have "(y, serialize (laddr_doc (tag_entry (last (filter (\<lambda>x. accepted x = Some (p, t)) data)))))
            \<in> set (laddr_writes ?tbp)"
      unfolding y by (rule map_of_SomeD)
    then show "y \<in> fst ` set (written (importLaddr (serve data) source))"
      unfolding w by force
  qed
  have 3: "\<forall>r \<in> set data. \<forall>p t. accepted r = Some (p, t) \<longrightarrow>
          map_of (written (importLaddr (serve data) source)) (laddr_path p t)
            = Some (serialize (laddr_doc (tag_entry
                (last (filter (\<lambda>x. accepted x = Some (p, t)) data)))))"
    unfolding w using map_of_laddr_writes [OF wk some] by blast
  from 1 2 3 show ?thesis by blast
qed

theorem laddr_last_record_wins_witness:
  "accepted rec_cloud = Some (''tech'', ''cloud'')
   \<and> accepted rec_cloud2 = Some (''tech'', ''cloud'')
   \<and> distinct (map fst (written (importLaddr get_tags None)))
   \<and> map_of (written (importLaddr get_tags None)) ''tech/cloud.toml''
       = Some (serialize (laddr_doc (tag_entry rec_cloud2)))"
proof -
  let ?data = "[rec_cloud, rec_event, rec_orphan, rec_misc, rec_cloud2]"
  have g: "get_tags = serve ?data"
    by (rule ext) (simp add: get_tags_def serve_def)
  have t: "prefix_tag (Handle rec_cloud) = (Some ''tech'', Some ''cloud'')"
    "prefix_tag (Handle rec_event) = (Some ''event'', Some ''launch'')"
    "prefix_tag (Handle rec_orphan) = (Some ''orphan'', None)"
    "prefix_tag (Handle rec_misc) = (Some ''misc'', Some ''widget'')"
    "prefix_tag (Handle rec_cloud2) = (Some ''tech'', Some ''cloud'')"
    by code_simp+
  have a: "accepted rec_cloud = Some (''tech'', ''cloud'')"
    "accepted rec_event = None" "accepted rec_orphan = None" "accepted rec_misc = None"
    "accepted rec_cloud2 = Some (''tech'', ''cloud'')"
    by (simp_all add: accepted_def t falsy_def template_def)
  have h: "\<forall>r \<in> set ?data. snd (prefix_tag (Handle r)) \<noteq> Some ''__proto__''"
    by (simp add: t)
  have l: "last (filter (\<lambda>x. accepted x = Some (''tech'', ''cloud'')) ?data) = rec_cloud2"
    by (simp add: a)
  have p: "laddr_path ''tech'' ''cloud'' = ''tech/cloud.toml''"
    by (simp add: laddr_path_def)
  note T = laddr_last_record_wins [OF h, of None]
  have m: "rec_cloud \<in> set ?data" by simp
  from T [THEN conjunct2, THEN conjunct2, rule_format, OF m a(1)]
  have "map_of (written (importLaddr get_tags None)) ''tech/cloud.toml''
       = Some (serialize (laddr_doc (tag_entry rec_cloud2)))"
    unfolding g l p .
  with T [THEN conjunct1] a(1) a(5) show ?thesis
    unfolding g by simp
qed

end
